theory Spec2Isabelle
  imports Main "HOL-Library.Sublist" "HOL-Library.Multiset" "HOL-Library.List_Lexorder"
    "HOL-Library.Code_Target_Nat"
begin

section \<open>Strings and the host's Unicode services\<close>

text \<open>
  A JavaScript string is represented by its sequence of Unicode code points. The regular
  expressions of the plugin that use character classes carry the \<^verbatim>\<open>u\<close> flag and read the
  text code point by code point; comparison, \<^verbatim>\<open>startsWith\<close>, \<^verbatim>\<open>substring\<close> and \<^verbatim>\<open>split\<close> act
  on such sequences as they do on the code units of well-formed text.
\<close>

type_synonym codepoint = nat
type_synonym jsstring = "codepoint list"

abbreviation hash :: codepoint where "hash \<equiv> 35"
abbreviation hyphen :: codepoint where "hyphen \<equiv> 45"
abbreviation slash :: codepoint where "slash \<equiv> 47"
abbreviation backslash :: codepoint where "backslash \<equiv> 92"
abbreviation underscore :: codepoint where "underscore \<equiv> 95"

text \<open>ASCII text as a sequence of code points.\<close>

definition ascii :: "string \<Rightarrow> jsstring" where
  "ascii s = map of_char s"

text \<open>
  The Unicode tables and the locale collation belong to the JavaScript runtime, not to the
  plugin. They are parameters of the model: \<open>unicodeLetter\<close> is \<^verbatim>\<open>\p{L}\<close>, \<open>unicodeNumber\<close> is
  \<^verbatim>\<open>\p{N}\<close>, and the three functions are \<^verbatim>\<open>String.prototype.toLowerCase\<close>,
  \<^verbatim>\<open>toUpperCase\<close> and \<^verbatim>\<open>localeCompare\<close>.
\<close>

record host =
  unicodeLetter :: "codepoint \<Rightarrow> bool"
  unicodeNumber :: "codepoint \<Rightarrow> bool"
  toLowerCase :: "jsstring \<Rightarrow> jsstring"
  toUpperCase :: "jsstring \<Rightarrow> jsstring"
  localeCompare :: "jsstring \<Rightarrow> jsstring \<Rightarrow> int"

section \<open>Settings\<close>

datatype CaseStrategy = lowercase | uppercase | none
datatype SeparatorStrategy = preserve | snake | kebab

record TagLowercaseSettings =
  caseStrategy :: CaseStrategy
  separatorStrategy :: SeparatorStrategy
  removeSpecialChars :: bool
  applyToNestedTags :: bool

definition DEFAULT_SETTINGS :: TagLowercaseSettings where
  "DEFAULT_SETTINGS =
     \<lparr>caseStrategy = lowercase, separatorStrategy = preserve,
      removeSpecialChars = False, applyToNestedTags = True\<rparr>"

section \<open>The segment transformer\<close>

text \<open>The character class \<^verbatim>\<open>[^\p{L}\p{N}\-_]\<close> of \<^verbatim>\<open>transformSegment\<close>.\<close>

definition isSpecialChar :: "host \<Rightarrow> codepoint \<Rightarrow> bool" where
  "isSpecialChar H c \<longleftrightarrow>
     \<not> (unicodeLetter H c \<or> unicodeNumber H c \<or> c = hyphen \<or> c = underscore)"

text \<open>\<^verbatim>\<open>s.replace(/x/g, 'y')\<close> for single characters \<open>x\<close> and \<open>y\<close>.\<close>

definition replaceChar :: "codepoint \<Rightarrow> codepoint \<Rightarrow> jsstring \<Rightarrow> jsstring" where
  "replaceChar x y s = map (\<lambda>c. if c = x then y else c) s"

definition transformSegment :: "host \<Rightarrow> TagLowercaseSettings \<Rightarrow> jsstring \<Rightarrow> jsstring" where
  "transformSegment H settings segment =
     (let s = segment;
          s = (if removeSpecialChars settings
               then filter (\<lambda>c. \<not> isSpecialChar H c) s else s);
          s = (if separatorStrategy settings = snake then replaceChar hyphen underscore s
               else if separatorStrategy settings = kebab then replaceChar underscore hyphen s
               else s);
          s = (if caseStrategy settings = lowercase then toLowerCase H s
               else if caseStrategy settings = uppercase then toUpperCase H s
               else s)
      in s)"

text \<open>\<^verbatim>\<open>String.prototype.split\<close> on a one-character separator: the result is never empty,
  and the empty string splits into one empty part.\<close>

fun split :: "codepoint \<Rightarrow> jsstring \<Rightarrow> jsstring list" where
  "split sep [] = [[]]"
| "split sep (c # cs) =
     (if c = sep then [] # split sep cs
      else (case split sep cs of p # ps \<Rightarrow> (c # p) # ps | [] \<Rightarrow> [[c]]))"

text \<open>\<^verbatim>\<open>Array.prototype.join\<close> with a one-character separator.\<close>

fun join :: "codepoint \<Rightarrow> jsstring list \<Rightarrow> jsstring" where
  "join sep [] = []"
| "join sep [p] = p"
| "join sep (p # q # ps) = p @ sep # join sep (q # ps)"

definition convertTagContent :: "host \<Rightarrow> TagLowercaseSettings \<Rightarrow> jsstring \<Rightarrow> jsstring" where
  "convertTagContent H settings tagContent =
     (let parts = split slash tagContent;
          processedParts =
            map (\<lambda>(index, part).
                   if index > 0 \<and> \<not> applyToNestedTags settings then part
                   else transformSegment H settings part)
                (enumerate 0 parts)
      in join slash processedParts)"

section \<open>Host operations on strings\<close>

definition startsWith :: "jsstring \<Rightarrow> jsstring \<Rightarrow> bool" where
  "startsWith s p \<longleftrightarrow> prefix p s"

definition substring :: "jsstring \<Rightarrow> nat \<Rightarrow> jsstring" where
  "substring s n = drop n s"

text \<open>The class \<^verbatim>\<open>\s\<close> of ECMAScript: white space and line terminators.\<close>

definition isWhiteSpace :: "codepoint \<Rightarrow> bool" where
  "isWhiteSpace c \<longleftrightarrow>
     c \<in> set [9, 10, 11, 12, 13, 32, 160, 5760, 8232, 8233, 8239, 8287, 12288, 65279]
     \<or> (8192 \<le> c \<and> c \<le> 8202)"

text \<open>
  A regular expression is represented by what it does at one position of the text: told
  whether the position is index 0 and given the text from the position on, it returns the
  captured groups and the length of the match, or nothing.
\<close>

type_synonym 'g matcher = "bool \<Rightarrow> jsstring \<Rightarrow> ('g \<times> nat) option"

text \<open>
  \<^verbatim>\<open>data.replace(regex, callback)\<close> for a global regular expression: matches are looked for
  from left to right, the search resumes after each match (one position further after an
  empty match), the text between matches is copied, and each match is replaced by what
  the callback returns, inserted as it is. The flag tells whether the callback ran.
\<close>

function replaceG :: "'g matcher \<Rightarrow> ('g \<Rightarrow> jsstring) \<Rightarrow> bool \<Rightarrow> jsstring \<Rightarrow> jsstring \<times> bool" where
  "replaceG rx cb atStart [] =
     (case rx atStart [] of Some (g, n) \<Rightarrow> (cb g, True) | None \<Rightarrow> ([], False))"
| "replaceG rx cb atStart (c # cs) =
     (case rx atStart (c # cs) of
        Some (g, n) \<Rightarrow>
          (cb g @ (if n = 0 then c # fst (replaceG rx cb False cs)
                   else fst (replaceG rx cb False (drop n (c # cs)))), True)
      | None \<Rightarrow> (let (out, called) = replaceG rx cb False cs in (c # out, called)))"
  by pat_completeness auto
termination
  by (relation "measure (\<lambda>(rx, cb, atStart, txt). length txt)") auto

text \<open>\<^verbatim>\<open>Array.prototype.join\<close> with a separator string.\<close>

fun joinWith :: "jsstring \<Rightarrow> jsstring list \<Rightarrow> jsstring" where
  "joinWith sep [] = []"
| "joinWith sep [p] = p"
| "joinWith sep (p # q # ps) = p @ sep @ joinWith sep (q # ps)"

section \<open>Renaming a tag\<close>

text \<open>The characters that \<^verbatim>\<open>escapeRegExp\<close> escapes: \<^verbatim>\<open>. * + ? ^ $ { } ( ) | [ ] \\<close>\<close>

definition escapedChars :: "codepoint list" where
  "escapedChars = [46, 42, 43, 63, 94, 36, 123, 125, 40, 41, 124, 91, 93, 92]"

definition escapeRegExp :: "jsstring \<Rightarrow> jsstring" where
  "escapeRegExp string =
     concat (map (\<lambda>c. if c \<in> set escapedChars then [backslash, c] else [c]) string)"

text \<open>
  The syntax characters of a pattern with the \<^verbatim>\<open>u\<close> flag, and how the pattern compiler
  reads a pattern source made of ordinary characters and of escaped syntax characters: as
  the literal text it stands for. A source with a bare syntax character is not a literal.
\<close>

definition syntaxCharacter :: "codepoint \<Rightarrow> bool" where
  "syntaxCharacter c \<longleftrightarrow>
     c \<in> set [94, 36, 92, 46, 42, 43, 63, 40, 41, 91, 93, 123, 125, 124]"

fun patternLiteral :: "jsstring \<Rightarrow> jsstring option" where
  "patternLiteral [] = Some []"
| "patternLiteral [c] = (if syntaxCharacter c then None else Some [c])"
| "patternLiteral (c # d # cs) =
     (if c = backslash then
        (if syntaxCharacter d \<or> d = slash then map_option (Cons d) (patternLiteral cs) else None)
      else if syntaxCharacter c then None
      else map_option (Cons c) (patternLiteral (d # cs)))"

text \<open>The lookahead \<^verbatim>\<open>(?=[\s\/]|$|[^\p{L}\p{N}_-])\<close>.\<close>

definition tagBoundary :: "host \<Rightarrow> jsstring \<Rightarrow> bool" where
  "tagBoundary H rest =
     (case rest of
        [] \<Rightarrow> True
      | c # _ \<Rightarrow> isWhiteSpace c \<or> c = slash
                 \<or> \<not> (unicodeLetter H c \<or> unicodeNumber H c \<or> c = underscore \<or> c = hyphen))"

text \<open>\<^verbatim>\<open>(#)(search)(?=...)\<close> at the head of the text.\<close>

definition matchHashTag :: "host \<Rightarrow> jsstring \<Rightarrow> jsstring \<Rightarrow> bool" where
  "matchHashTag H lit txt =
     (case txt of
        [] \<Rightarrow> False
      | c # rest \<Rightarrow> c = hash \<and> prefix lit rest \<and> tagBoundary H (drop (length lit) rest))"

text \<open>
  \<^verbatim>\<open>tagRegex\<close>: the alternative \<^verbatim>\<open>^\<close> of the first group is tried before \<^verbatim>\<open>\s\<close>; without the
  \<^verbatim>\<open>m\<close> flag \<^verbatim>\<open>^\<close> holds at index 0 only. The groups are prefix, hash and capturedTag.
\<close>

definition tagRegex :: "host \<Rightarrow> jsstring \<Rightarrow> (jsstring \<times> jsstring \<times> jsstring) matcher" where
  "tagRegex H lit atStart txt =
     (if atStart \<and> matchHashTag H lit txt then Some (([], [hash], lit), 1 + length lit)
      else (case txt of
              [] \<Rightarrow> None
            | c # rest \<Rightarrow>
                if isWhiteSpace c \<and> matchHashTag H lit rest
                then Some (([c], [hash], lit), 2 + length lit) else None))"

text \<open>
  The body step of \<^verbatim>\<open>renameTag\<close>. The pattern is built from the escaped search term; by
  \<open>patternLiteral_escapeRegExp\<close> below it always is the literal search term, so the second
  branch is never taken.
\<close>

definition renameBody :: "host \<Rightarrow> jsstring \<Rightarrow> jsstring \<Rightarrow> jsstring \<Rightarrow> jsstring \<times> bool" where
  "renameBody H search replace data =
     (case patternLiteral (escapeRegExp search) of
        Some lit \<Rightarrow>
          replaceG (tagRegex H lit) (\<lambda>(prefix, hash, capturedTag). prefix @ hash @ replace)
            True data
      | None \<Rightarrow> (data, False))"

text \<open>
  The same replace resumed in the middle of the text: \<open>atStart\<close> tells whether the
  position is index 0, so that \<^verbatim>\<open>renameBody\<close> is the case where it is.
\<close>

definition renameBodyFrom ::
  "host \<Rightarrow> jsstring \<Rightarrow> jsstring \<Rightarrow> bool \<Rightarrow> jsstring \<Rightarrow> jsstring \<times> bool" where
  "renameBodyFrom H search replace atStart data =
     (case patternLiteral (escapeRegExp search) of
        Some lit \<Rightarrow>
          replaceG (tagRegex H lit) (\<lambda>(prefix, hash, capturedTag). prefix @ hash @ replace)
            atStart data
      | None \<Rightarrow> (data, False))"

text \<open>
  \<^verbatim>\<open>processSingleTag\<close> of \<^verbatim>\<open>renameTag\<close>; the flag is the assignment \<^verbatim>\<open>modified = true\<close>.
\<close>

definition processSingleTag :: "jsstring \<Rightarrow> jsstring \<Rightarrow> jsstring \<Rightarrow> jsstring \<times> bool" where
  "processSingleTag search replace t =
     (let hasHash = startsWith t [hash];
          raw = (if hasHash then substring t 1 else t)
      in if raw = search then ((if hasHash then hash # replace else replace), True)
         else if startsWith raw (search @ [slash]) then
           (let newRaw = replace @ substring raw (length search)
            in ((if hasHash then hash # newRaw else newRaw), True))
         else (t, False))"

section \<open>Documents\<close>

text \<open>
  A document has structured metadata, with the fields \<^verbatim>\<open>tags\<close> and \<^verbatim>\<open>tag\<close>, and a text. A
  field is missing, a string, an array, or some other value; an array element is a string
  or some other value (a number, say), on which \<^verbatim>\<open>t.startsWith\<close> raises a TypeError.
\<close>

datatype error = TypeError

datatype YamlValue = YString jsstring | YOther

datatype Field = Undefined | Str jsstring | Arr "YamlValue list" | OtherValue

record FrontMatter =
  tags :: Field
  tag :: Field

record TFile =
  path :: jsstring
  frontmatter :: FrontMatter
  content :: jsstring

text \<open>The test \<^verbatim>\<open>if (frontmatter.tags)\<close>: the empty string is falsy, every array is truthy.\<close>

fun truthy :: "Field \<Rightarrow> bool" where
  "truthy Undefined = False"
| "truthy (Str s) = (s \<noteq> [])"
| "truthy (Arr ts) = True"
| "truthy OtherValue = True"

text \<open>\<^verbatim>\<open>array.map(f)\<close> for an \<open>f\<close> that calls \<^verbatim>\<open>t.startsWith\<close> first and sets a flag.\<close>

fun mapTags :: "(jsstring \<Rightarrow> jsstring \<times> bool) \<Rightarrow> YamlValue list \<Rightarrow> error + (YamlValue list \<times> bool)" where
  "mapTags f [] = Inr ([], False)"
| "mapTags f (YOther # ts) = Inl TypeError"
| "mapTags f (YString t # ts) =
     (let (t', m) = f t
      in case mapTags f ts of
           Inl e \<Rightarrow> Inl e
         | Inr (ts', m') \<Rightarrow> Inr (YString t' # ts', m \<or> m'))"

definition processField :: "(jsstring \<Rightarrow> jsstring \<times> bool) \<Rightarrow> Field \<Rightarrow> error + (Field \<times> bool)" where
  "processField f v =
     (if truthy v then
        (case v of
           Arr ts \<Rightarrow> (case mapTags f ts of Inl e \<Rightarrow> Inl e | Inr (ts', m) \<Rightarrow> Inr (Arr ts', m))
         | Str t \<Rightarrow> (let (t', m) = f t in Inr (Str t', m))
         | _ \<Rightarrow> Inr (v, False))
      else Inr (v, False))"

text \<open>The callback given to \<^verbatim>\<open>processFrontMatter\<close>: the field \<^verbatim>\<open>tags\<close>, then its alias.\<close>

definition processFields :: "(jsstring \<Rightarrow> jsstring \<times> bool) \<Rightarrow> FrontMatter \<Rightarrow> error + (FrontMatter \<times> bool)" where
  "processFields f fm =
     (case processField f (tags fm) of
        Inl e \<Rightarrow> Inl e
      | Inr (v, m) \<Rightarrow>
          (case processField f (tag fm) of
             Inl e \<Rightarrow> Inl e
           | Inr (v', m') \<Rightarrow> Inr (fm\<lparr>tags := v, tag := v'\<rparr>, m \<or> m')))"

text \<open>
  The host's scoped accesses. \<^verbatim>\<open>processFrontMatter\<close> stores the metadata when the callback
  returns and stores nothing when it raises; \<^verbatim>\<open>vault.process\<close> stores the text returned.
\<close>

definition processFrontMatter ::
  "TFile \<Rightarrow> (FrontMatter \<Rightarrow> error + (FrontMatter \<times> bool)) \<Rightarrow> error + (TFile \<times> bool)" where
  "processFrontMatter file fn =
     (case fn (frontmatter file) of
        Inl e \<Rightarrow> Inl e
      | Inr (fm, m) \<Rightarrow> Inr (file\<lparr>frontmatter := fm\<rparr>, m))"

definition vaultProcess :: "TFile \<Rightarrow> (jsstring \<Rightarrow> jsstring \<times> bool) \<Rightarrow> TFile \<times> bool" where
  "vaultProcess file fn = (let (newData, m) = fn (content file) in (file\<lparr>content := newData\<rparr>, m))"

datatype Notice =
  StartingConversion nat
| CompletedProcessed nat
| NoTagsInVault
| NoTagsToList
| UpdatedTagList jsstring nat
| CreatedTagList jsstring nat
| ProvideBothTags
| Renaming jsstring jsstring
| RenamedIn nat

datatype LogEntry = FailedToProcess jsstring error

text \<open>One round of the loop of \<^verbatim>\<open>renameTag\<close>: the metadata first, then the text.\<close>

definition renameFile :: "host \<Rightarrow> jsstring \<Rightarrow> jsstring \<Rightarrow> TFile \<Rightarrow> error + (TFile \<times> bool)" where
  "renameFile H search replace file =
     (case processFrontMatter file (processFields (processSingleTag search replace)) of
        Inl e \<Rightarrow> Inl e
      | Inr (file', modified) \<Rightarrow>
          (let (file'', modified') = vaultProcess file' (renameBody H search replace)
           in Inr (file'', modified \<or> modified')))"

text \<open>
  The loop of \<^verbatim>\<open>renameTag\<close>. Nothing catches an exception here: it ends the loop, and the
  documents already rewritten stay rewritten.
\<close>

fun renameFiles ::
  "host \<Rightarrow> jsstring \<Rightarrow> jsstring \<Rightarrow> TFile list \<Rightarrow> nat \<Rightarrow> TFile list \<times> nat \<times> error option" where
  "renameFiles H search replace [] processedCount = ([], processedCount, None)"
| "renameFiles H search replace (file # files) processedCount =
     (case renameFile H search replace file of
        Inl e \<Rightarrow> (file # files, processedCount, Some e)
      | Inr (file', modified) \<Rightarrow>
          (let (files', n, e) =
                 renameFiles H search replace files
                   (if modified then processedCount + 1 else processedCount)
           in (file' # files', n, e)))"

definition renameTag ::
  "host \<Rightarrow> jsstring \<Rightarrow> jsstring \<Rightarrow> TFile list \<Rightarrow> TFile list \<times> Notice list \<times> error option" where
  "renameTag H oldTag newTag files =
     (let search = (if startsWith oldTag [hash] then substring oldTag 1 else oldTag);
          replace = (if startsWith newTag [hash] then substring newTag 1 else newTag)
      in if search = [] \<or> replace = [] then (files, [ProvideBothTags], None)
         else (case renameFiles H search replace files 0 of
                 (files', processedCount, None) \<Rightarrow>
                   (files', [Renaming search replace, RenamedIn processedCount], None)
               | (files', processedCount, Some e) \<Rightarrow>
                   (files', [Renaming search replace], Some e)))"

section \<open>Bulk conversion\<close>

text \<open>\<^verbatim>\<open>processSingleTag\<close> of \<^verbatim>\<open>processFile\<close>; it sets no flag.\<close>

definition convertSingleTag :: "host \<Rightarrow> TagLowercaseSettings \<Rightarrow> jsstring \<Rightarrow> jsstring" where
  "convertSingleTag H settings t =
     (let hasHash = startsWith t [hash];
          clean = (if hasHash then substring t 1 else t);
          converted = convertTagContent H settings clean
      in if hasHash then hash # converted else converted)"

text \<open>The class \<^verbatim>\<open>[\p{L}\p{N}_\-\/]\<close> of the inline tag pattern.\<close>

definition isTagChar :: "host \<Rightarrow> codepoint \<Rightarrow> bool" where
  "isTagChar H c \<longleftrightarrow>
     unicodeLetter H c \<or> unicodeNumber H c \<or> c = underscore \<or> c = hyphen \<or> c = slash"

text \<open>\<^verbatim>\<open>(#[\p{L}\p{N}_\-\/]+)\<close> at the head of the text; the repetition is greedy.\<close>

definition matchInlineTag :: "host \<Rightarrow> jsstring \<Rightarrow> jsstring option" where
  "matchInlineTag H txt =
     (case txt of
        [] \<Rightarrow> None
      | c # rest \<Rightarrow>
          if c = hash \<and> takeWhile (isTagChar H) rest \<noteq> []
          then Some (hash # takeWhile (isTagChar H) rest) else None)"

text \<open>The pattern \<^verbatim>\<open>/(^|\s)(#[\p{L}\p{N}_\-\/]+)/gu\<close>, with the groups prefix and tag.\<close>

definition inlineTagRegex :: "host \<Rightarrow> (jsstring \<times> jsstring) matcher" where
  "inlineTagRegex H atStart txt =
     (case (if atStart then matchInlineTag H txt else None) of
        Some t \<Rightarrow> Some (([], t), length t)
      | None \<Rightarrow>
          (case txt of
             [] \<Rightarrow> None
           | c # rest \<Rightarrow>
               if isWhiteSpace c then
                 (case matchInlineTag H rest of
                    Some t \<Rightarrow> Some (([c], t), 1 + length t)
                  | None \<Rightarrow> None)
               else None))"

definition convertBody :: "host \<Rightarrow> TagLowercaseSettings \<Rightarrow> jsstring \<Rightarrow> jsstring \<times> bool" where
  "convertBody H settings data =
     replaceG (inlineTagRegex H)
       (\<lambda>(prefix, t).
          let clean = substring t 1;
              converted = convertTagContent H settings clean
          in prefix @ hash # converted)
       True data"

definition processFile :: "host \<Rightarrow> TagLowercaseSettings \<Rightarrow> TFile \<Rightarrow> error + TFile" where
  "processFile H settings file =
     (case processFrontMatter file
             (processFields (\<lambda>t. (convertSingleTag H settings t, False))) of
        Inl e \<Rightarrow> Inl e
      | Inr (file', _) \<Rightarrow> Inr (fst (vaultProcess file' (convertBody H settings))))"

text \<open>
  The loop of \<^verbatim>\<open>runConversion\<close>, with its \<^verbatim>\<open>try\<close>/\<^verbatim>\<open>catch\<close> around each document: the state is
  the counter and the console.
\<close>

fun convertFiles ::
  "host \<Rightarrow> TagLowercaseSettings \<Rightarrow> TFile list \<Rightarrow> nat \<Rightarrow> LogEntry list \<Rightarrow>
   TFile list \<times> nat \<times> LogEntry list" where
  "convertFiles H settings [] processedCount console = ([], processedCount, console)"
| "convertFiles H settings (file # files) processedCount console =
     (case processFile H settings file of
        Inr file' \<Rightarrow>
          (let (files', n, console') =
                 convertFiles H settings files (processedCount + 1) console
           in (file' # files', n, console'))
      | Inl e \<Rightarrow>
          (let (files', n, console') =
                 convertFiles H settings files processedCount
                   (console @ [FailedToProcess (path file) e])
           in (file # files', n, console')))"

definition runConversion ::
  "host \<Rightarrow> TagLowercaseSettings \<Rightarrow> TFile list \<Rightarrow> TFile list \<times> Notice list \<times> LogEntry list" where
  "runConversion H settings files =
     (let (files', processedCount, console) = convertFiles H settings files 0 []
      in (files', [StartingConversion (length files), CompletedProcessed processedCount],
          console))"

section \<open>The tag list and the statistics\<close>

text \<open>
  \<^verbatim>\<open>Array.prototype.sort\<close> with a comparison function: the sort is stable; for a
  consistent comparison function the result is the one of this insertion sort.
\<close>

fun insertBy :: "('a \<Rightarrow> 'a \<Rightarrow> int) \<Rightarrow> 'a \<Rightarrow> 'a list \<Rightarrow> 'a list" where
  "insertBy cmp x [] = [x]"
| "insertBy cmp x (y # ys) = (if cmp x y \<le> 0 then x # y # ys else y # insertBy cmp x ys)"

definition sortBy :: "('a \<Rightarrow> 'a \<Rightarrow> int) \<Rightarrow> 'a list \<Rightarrow> 'a list" where
  "sortBy cmp xs = foldr (insertBy cmp) xs []"

text \<open>
  The tags known to the metadata cache: \<^verbatim>\<open>getTags()\<close> returns an object from tag names,
  written with their marker, to counts, or nothing. The object is the list of its entries
  in the order of \<^verbatim>\<open>Object.keys\<close>; an object holds each key once.
\<close>

type_synonym TagCache = "(jsstring \<times> nat) list option"

definition objectKeys :: "(jsstring \<times> nat) list \<Rightarrow> jsstring list" where
  "objectKeys obj = map fst obj"

abbreviation newline :: codepoint where "newline \<equiv> 10"

definition fileContent :: "jsstring list \<Rightarrow> jsstring" where
  "fileContent sortedTags =
     ascii ''# All Tags'' @ [newline, newline]
     @ join newline (map (\<lambda>t. ascii ''- '' @ t) sortedTags) @ [newline]"

text \<open>
  \<^verbatim>\<open>generateTagList\<close>: the document \<^verbatim>\<open>All Tags.md\<close> is overwritten when it exists and created
  otherwise. The host's write is taken to succeed.
\<close>

fun modifyFile :: "jsstring \<Rightarrow> jsstring \<Rightarrow> TFile list \<Rightarrow> TFile list" where
  "modifyFile name text [] = []"
| "modifyFile name text (f # fs) =
     (if path f = name then f\<lparr>content := text\<rparr> # fs else f # modifyFile name text fs)"

definition createFile :: "jsstring \<Rightarrow> jsstring \<Rightarrow> TFile list \<Rightarrow> TFile list" where
  "createFile name text fs =
     fs @ [\<lparr>path = name, frontmatter = \<lparr>tags = Undefined, tag = Undefined\<rparr>, content = text\<rparr>]"

definition generateTagList :: "host \<Rightarrow> TagCache \<Rightarrow> TFile list \<Rightarrow> TFile list \<times> Notice list" where
  "generateTagList H cache files =
     (case cache of
        None \<Rightarrow> (files, [NoTagsInVault])
      | Some obj \<Rightarrow>
          (let sortedTags = sortBy (localeCompare H) (objectKeys obj)
           in if length sortedTags = 0 then (files, [NoTagsToList])
              else (let fileName = ascii ''All Tags.md''
                    in if fileName \<in> set (map path files)
                       then (modifyFile fileName (fileContent sortedTags) files,
                             [UpdatedTagList fileName (length sortedTags)])
                       else (createFile fileName (fileContent sortedTags) files,
                             [CreatedTagList fileName (length sortedTags)]))))"

text \<open>
  \<^verbatim>\<open>updateStats\<close> of the dashboard. It reads the settings and the tag cache and fills the
  two lines of the statistics element; the state of the plugin (settings, documents, tag
  cache) is returned as it was received.
\<close>

record Plugin =
  pluginSettings :: TagLowercaseSettings
  markdownFiles :: "TFile list"
  tagCache :: TagCache

definition updateStats :: "host \<Rightarrow> Plugin \<Rightarrow> Plugin \<times> nat \<times> nat" where
  "updateStats H plugin =
     (let allTags = tagCache plugin;
          uniqueTags = (case allTags of Some obj \<Rightarrow> objectKeys obj | None \<Rightarrow> []);
          totalCount = length uniqueTags;
          affectedCount =
            fold (\<lambda>t affectedCount.
                    let raw = substring t 1;
                        converted = convertTagContent H (pluginSettings plugin) raw
                    in if raw \<noteq> converted then affectedCount + 1 else affectedCount)
                 uniqueTags 0
      in (plugin, totalCount, affectedCount))"

section \<open>A fragment of the host's tables\<close>

text \<open>
  Concrete inputs are evaluated on a fragment of the Unicode data: the ASCII letters and
  digits, and the code points U+00DF (Ll, upper case \<^verbatim>\<open>SS\<close>), U+0130 (Lu, lower case
  U+0069 U+0307), U+01F0 (Ll, upper case U+004A U+030C), with the combining marks U+0307
  and U+030C (Mn, neither letters nor numbers). The inputs used below stay inside it.
\<close>

definition fragmentLetter :: "codepoint \<Rightarrow> bool" where
  "fragmentLetter c \<longleftrightarrow>
     (65 \<le> c \<and> c \<le> 90) \<or> (97 \<le> c \<and> c \<le> 122) \<or> c = 223 \<or> c = 304 \<or> c = 496"

definition fragmentNumber :: "codepoint \<Rightarrow> bool" where
  "fragmentNumber c \<longleftrightarrow> 48 \<le> c \<and> c \<le> 57"

definition lowerMapping :: "codepoint \<Rightarrow> jsstring" where
  "lowerMapping c =
     (if 65 \<le> c \<and> c \<le> 90 then [c + 32] else if c = 304 then [105, 775] else [c])"

definition upperMapping :: "codepoint \<Rightarrow> jsstring" where
  "upperMapping c =
     (if 97 \<le> c \<and> c \<le> 122 then [c - 32]
      else if c = 223 then [83, 83]
      else if c = 496 then [74, 780]
      else [c])"

text \<open>
  The collation of the fragment, for strings of \<^verbatim>\<open>#\<close>, ASCII digits and ASCII letters:
  the marker before digits before letters, letters alphabetically whatever their case,
  and on a tie the lower-case letter first.
\<close>

definition collationKey :: "codepoint \<Rightarrow> nat" where
  "collationKey c = (if 65 \<le> c \<and> c \<le> 90 then c + 32 else c)"

definition caseKey :: "codepoint \<Rightarrow> nat" where
  "caseKey c = (if 65 \<le> c \<and> c \<le> 90 then 1 else 0)"

definition fragmentCompare :: "jsstring \<Rightarrow> jsstring \<Rightarrow> int" where
  "fragmentCompare a b =
     (if map collationKey a < map collationKey b then - 1
      else if map collationKey b < map collationKey a then 1
      else if map caseKey a < map caseKey b then - 1
      else if map caseKey b < map caseKey a then 1
      else 0)"

definition unicodeFragment :: host where
  "unicodeFragment =
     \<lparr>unicodeLetter = fragmentLetter, unicodeNumber = fragmentNumber,
      toLowerCase = (\<lambda>s. concat (map lowerMapping s)),
      toUpperCase = (\<lambda>s. concat (map upperMapping s)),
      localeCompare = fragmentCompare\<rparr>"

section \<open>Properties of the segment transformer\<close>

lemma replaceChar_absent: "x \<notin> set s \<Longrightarrow> replaceChar x y s = s"
  by (induction s) (auto simp: replaceChar_def)

lemma replaceChar_removes: "x \<noteq> y \<Longrightarrow> x \<notin> set (replaceChar x y s)"
  by (induction s) (auto simp: replaceChar_def)

lemma set_replaceChar: "set (replaceChar x y s) \<subseteq> insert y (set s)"
  by (auto simp: replaceChar_def)

lemma fragment_lower_idem:
  "concat (map lowerMapping (concat (map lowerMapping s))) = concat (map lowerMapping s)"
  by (induction s) (auto simp: lowerMapping_def)

lemma fragment_upper_idem:
  "concat (map upperMapping (concat (map upperMapping s))) = concat (map upperMapping s)"
  by (induction s) (auto simp: upperMapping_def)

lemma fragment_lower_mem:
  "c \<in> set (concat (map lowerMapping s)) \<Longrightarrow> c < 65 \<or> c = 95 \<Longrightarrow> c \<in> set s"
  by (induction s) (auto simp: lowerMapping_def split: if_splits)

lemma fragment_upper_mem:
  "c \<in> set (concat (map upperMapping s)) \<Longrightarrow> c < 65 \<or> c = 95 \<Longrightarrow> c \<in> set s"
  by (induction s) (auto simp: upperMapping_def split: if_splits)

text \<open>
  C1 (as amended). \<^verbatim>\<open>transformSegment\<close> applied twice gives the same as applied once, for
  every configuration and every input whose transformed value, when remove-special-chars
  is on together with a case conversion, holds only letters, numbers, hyphens and
  underscores. The host's case conversions are taken to be idempotent and to introduce no
  hyphen and no underscore.
\<close>

theorem transformSegment_idempotent:
  assumes lower: "\<And>s. toLowerCase H (toLowerCase H s) = toLowerCase H s"
    and upper: "\<And>s. toUpperCase H (toUpperCase H s) = toUpperCase H s"
    and lowerSep: "\<And>s c. c = hyphen \<or> c = underscore \<Longrightarrow> c \<in> set (toLowerCase H s) \<Longrightarrow> c \<in> set s"
    and upperSep: "\<And>s c. c = hyphen \<or> c = underscore \<Longrightarrow> c \<in> set (toUpperCase H s) \<Longrightarrow> c \<in> set s"
    and kept: "removeSpecialChars settings \<Longrightarrow> caseStrategy settings \<noteq> none \<Longrightarrow>
                 \<forall>c \<in> set (transformSegment H settings x). \<not> isSpecialChar H c"
  shows "transformSegment H settings (transformSegment H settings x) =
         transformSegment H settings x"
proof -
  define strip where
    "strip s = (if removeSpecialChars settings then filter (\<lambda>c. \<not> isSpecialChar H c) s else s)" for s
  define sep where
    "sep s = (if separatorStrategy settings = snake then replaceChar hyphen underscore s
              else if separatorStrategy settings = kebab then replaceChar underscore hyphen s
              else s)" for s
  define cas where
    "cas s = (if caseStrategy settings = lowercase then toLowerCase H s
              else if caseStrategy settings = uppercase then toUpperCase H s
              else s)" for s
  have unfold: "transformSegment H settings s = cas (sep (strip s))" for s
    by (simp add: transformSegment_def strip_def sep_def cas_def)
  define y where "y = sep (strip x)"
  have strip_fix: "strip (cas y) = cas y"
  proof (cases "removeSpecialChars settings")
    case True
    have "\<forall>c \<in> set (cas y). \<not> isSpecialChar H c"
    proof (cases "caseStrategy settings = none")
      case False
      with True kept show ?thesis unfolding unfold y_def by blast
    next
      case none: True
      have "\<forall>c \<in> set (strip x). \<not> isSpecialChar H c"
        using True by (simp add: strip_def)
      moreover have "\<not> isSpecialChar H hyphen" "\<not> isSpecialChar H underscore"
        by (simp_all add: isSpecialChar_def)
      ultimately have "\<forall>c \<in> set y. \<not> isSpecialChar H c"
        using set_replaceChar [of hyphen underscore "strip x"]
          set_replaceChar [of underscore hyphen "strip x"]
        by (auto simp: y_def sep_def)
      with none show ?thesis by (simp add: cas_def)
    qed
    then show ?thesis by (simp add: strip_def)
  next
    case False
    then show ?thesis by (simp add: strip_def)
  qed
  have cas_mem: "c \<in> set s" if "c \<in> set (cas s)" "c = hyphen \<or> c = underscore" for c s
  proof (cases "caseStrategy settings")
    case lowercase
    then show ?thesis using that lowerSep [of c s] by (simp add: cas_def)
  next
    case uppercase
    then show ?thesis using that upperSep [of c s] by (simp add: cas_def)
  next
    case none
    then show ?thesis using that by (simp add: cas_def)
  qed
  have sep_fix: "sep (cas y) = cas y"
  proof (cases "separatorStrategy settings")
    case preserve
    then show ?thesis by (simp add: sep_def)
  next
    case snake
    have "hyphen \<notin> set y"
      using snake replaceChar_removes [of hyphen underscore "strip x"] by (simp add: y_def sep_def)
    then have "hyphen \<notin> set (cas y)" using cas_mem [of hyphen y] by blast
    then show ?thesis using snake by (simp add: sep_def replaceChar_absent)
  next
    case kebab
    have "underscore \<notin> set y"
      using kebab replaceChar_removes [of underscore hyphen "strip x"] by (simp add: y_def sep_def)
    then have "underscore \<notin> set (cas y)" using cas_mem [of underscore y] by blast
    then show ?thesis using kebab by (simp add: sep_def replaceChar_absent)
  qed
  have cas_fix: "cas (cas y) = cas y"
    by (cases "caseStrategy settings") (simp_all add: cas_def lower upper)
  have "transformSegment H settings x = cas y"
    by (simp only: unfold y_def)
  then show ?thesis
    by (simp only: unfold [of "cas y"] strip_fix sep_fix cas_fix)
qed

theorem transformSegment_idempotent_witness:
  "transformSegment unicodeFragment
     \<lparr>caseStrategy = lowercase, separatorStrategy = snake,
      removeSpecialChars = True, applyToNestedTags = True\<rparr>
     (transformSegment unicodeFragment
        \<lparr>caseStrategy = lowercase, separatorStrategy = snake,
         removeSpecialChars = True, applyToNestedTags = True\<rparr> (ascii ''My-Tag!'')) =
   transformSegment unicodeFragment
     \<lparr>caseStrategy = lowercase, separatorStrategy = snake,
      removeSpecialChars = True, applyToNestedTags = True\<rparr> (ascii ''My-Tag!'')
   \<and> transformSegment unicodeFragment
     \<lparr>caseStrategy = lowercase, separatorStrategy = snake,
      removeSpecialChars = True, applyToNestedTags = True\<rparr> (ascii ''My-Tag!'') = ascii ''my_tag''"
proof -
  let ?cfg = "\<lparr>caseStrategy = lowercase, separatorStrategy = snake,
      removeSpecialChars = True, applyToNestedTags = True\<rparr>"
  have result: "transformSegment unicodeFragment ?cfg (ascii ''My-Tag!'') = ascii ''my_tag''"
    by code_simp
  have kept: "\<forall>c \<in> set (transformSegment unicodeFragment ?cfg (ascii ''My-Tag!'')).
                \<not> isSpecialChar unicodeFragment c"
    by code_simp
  have "transformSegment unicodeFragment ?cfg
          (transformSegment unicodeFragment ?cfg (ascii ''My-Tag!'')) =
        transformSegment unicodeFragment ?cfg (ascii ''My-Tag!'')"
  proof (rule transformSegment_idempotent)
    show "toLowerCase unicodeFragment (toLowerCase unicodeFragment s) =
          toLowerCase unicodeFragment s" for s
      by (simp add: unicodeFragment_def fragment_lower_idem)
    show "toUpperCase unicodeFragment (toUpperCase unicodeFragment s) =
          toUpperCase unicodeFragment s" for s
      by (simp add: unicodeFragment_def fragment_upper_idem)
    show "c \<in> set s" if "c = hyphen \<or> c = underscore" "c \<in> set (toLowerCase unicodeFragment s)" for s c
      using that fragment_lower_mem [of c s] by (auto simp: unicodeFragment_def)
    show "c \<in> set s" if "c = hyphen \<or> c = underscore" "c \<in> set (toUpperCase unicodeFragment s)" for s c
      using that fragment_upper_mem [of c s] by (auto simp: unicodeFragment_def)
    show "\<forall>c \<in> set (transformSegment unicodeFragment ?cfg (ascii ''My-Tag!'')).
            \<not> isSpecialChar unicodeFragment c"
      by (rule kept)
  qed
  with result show ?thesis by simp
qed

text \<open>
  C1 as stated fails: with remove-special-chars on and lower-casing, U+0130 becomes
  U+0069 U+0307, and the second application deletes the combining mark U+0307.
\<close>

theorem transformSegment_idempotent_counterexample:
  "transformSegment unicodeFragment
     \<lparr>caseStrategy = lowercase, separatorStrategy = preserve,
      removeSpecialChars = True, applyToNestedTags = True\<rparr>
     (transformSegment unicodeFragment
        \<lparr>caseStrategy = lowercase, separatorStrategy = preserve,
         removeSpecialChars = True, applyToNestedTags = True\<rparr> [304]) \<noteq>
   transformSegment unicodeFragment
     \<lparr>caseStrategy = lowercase, separatorStrategy = preserve,
      removeSpecialChars = True, applyToNestedTags = True\<rparr> [304]"
  by code_simp

section \<open>Splitting, joining and the tag transformer\<close>

lemma split_not_Nil: "split sep s \<noteq> []"
  by (induction s) (auto split: list.splits)

lemma join_split: "join sep (split sep s) = s"
proof (induction s)
  case Nil
  show ?case by simp
next
  case (Cons c s)
  obtain p ps where ps: "split sep s = p # ps"
    using split_not_Nil [of sep s] by (cases "split sep s") auto
  with Cons show ?case by (cases ps) auto
qed

lemma split_parts_free: "p \<in> set (split sep s) \<Longrightarrow> sep \<notin> set p"
  by (induction s arbitrary: p) (auto split: if_splits list.splits)

lemma split_free: "sep \<notin> set p \<Longrightarrow> split sep p = [p]"
  by (induction p) auto

lemma split_append_sep: "sep \<notin> set p \<Longrightarrow> split sep (p @ sep # s) = p # split sep s"
  by (induction p) auto

lemma split_join:
  "ps \<noteq> [] \<Longrightarrow> \<forall>p \<in> set ps. sep \<notin> set p \<Longrightarrow> split sep (join sep ps) = ps"
  by (induction sep ps rule: join.induct) (auto simp: split_free split_append_sep)

lemma length_split: "length (split sep s) = Suc (count_list s sep)"
  by (induction s) (auto split: list.splits simp: split_not_Nil)

lemma transformSegment_slash_free:
  assumes lowerSlash: "\<And>s. slash \<in> set (toLowerCase H s) \<Longrightarrow> slash \<in> set s"
    and upperSlash: "\<And>s. slash \<in> set (toUpperCase H s) \<Longrightarrow> slash \<in> set s"
    and free: "slash \<notin> set p"
  shows "slash \<notin> set (transformSegment H settings p)"
proof -
  define a where
    "a = (if removeSpecialChars settings then filter (\<lambda>c. \<not> isSpecialChar H c) p else p)"
  define b where
    "b = (if separatorStrategy settings = snake then replaceChar hyphen underscore a
          else if separatorStrategy settings = kebab then replaceChar underscore hyphen a
          else a)"
  have a: "slash \<notin> set a" using free by (simp add: a_def)
  have b: "slash \<notin> set b"
    using a set_replaceChar [of hyphen underscore a] set_replaceChar [of underscore hyphen a]
    by (auto simp: b_def)
  have "transformSegment H settings p =
        (if caseStrategy settings = lowercase then toLowerCase H b
         else if caseStrategy settings = uppercase then toUpperCase H b else b)"
    by (simp add: transformSegment_def a_def b_def)
  then show ?thesis using b lowerSlash [of b] upperSlash [of b] by auto
qed

lemma transformSegment_Nil:
  "toLowerCase H [] = [] \<Longrightarrow> toUpperCase H [] = [] \<Longrightarrow> transformSegment H settings [] = []"
  by (simp add: transformSegment_def replaceChar_def)

lemma split_convertTagContent:
  assumes lowerSlash: "\<And>s. slash \<in> set (toLowerCase H s) \<Longrightarrow> slash \<in> set s"
    and upperSlash: "\<And>s. slash \<in> set (toUpperCase H s) \<Longrightarrow> slash \<in> set s"
  shows "split slash (convertTagContent H settings tagContent) =
         map (\<lambda>(index, part).
                if index > 0 \<and> \<not> applyToNestedTags settings then part
                else transformSegment H settings part)
             (enumerate 0 (split slash tagContent))"
proof -
  define f where
    "f = (\<lambda>(index :: nat, part).
            if index > 0 \<and> \<not> applyToNestedTags settings then part
            else transformSegment H settings part)"
  define pp where "pp = map f (enumerate 0 (split slash tagContent))"
  have "length pp = length (split slash tagContent)" by (simp add: pp_def)
  then have "pp \<noteq> []" using split_not_Nil [of slash tagContent] by auto
  moreover have "\<forall>p \<in> set pp. slash \<notin> set p"
  proof
    fix p assume "p \<in> set pp"
    then obtain i q where iq: "(i, q) \<in> set (enumerate 0 (split slash tagContent))" "p = f (i, q)"
      by (auto simp: pp_def)
    then have "q \<in> set (split slash tagContent)" by (auto simp: in_set_enumerate_eq)
    then have "slash \<notin> set q" by (rule split_parts_free)
    then show "slash \<notin> set p"
      using iq(2) transformSegment_slash_free [where H = H and p = q and settings = settings, OF lowerSlash upperSlash]
      by (auto simp: f_def)
  qed
  ultimately have "split slash (join slash pp) = pp" by (rule split_join)
  then show ?thesis by (simp add: convertTagContent_def pp_def f_def)
qed

lemma fragment_lower_slash:
  "slash \<in> set (toLowerCase unicodeFragment s) \<Longrightarrow> slash \<in> set s"
  using fragment_lower_mem [of slash s] by (simp add: unicodeFragment_def)

lemma fragment_upper_slash:
  "slash \<in> set (toUpperCase unicodeFragment s) \<Longrightarrow> slash \<in> set s"
  using fragment_upper_mem [of slash s] by (simp add: unicodeFragment_def)

text \<open>
  C4. \<^verbatim>\<open>convertTagContent\<close> (the spec's transformTag) keeps the number of slashes and of
  segments, and a segment that is empty in the input is empty at the same position in the
  output, whatever the configuration. The host's case conversions are taken to introduce
  no slash and to map the empty string to itself.
\<close>

theorem convertTagContent_preserves_slashes:
  assumes lowerSlash: "\<And>s. slash \<in> set (toLowerCase H s) \<Longrightarrow> slash \<in> set s"
    and upperSlash: "\<And>s. slash \<in> set (toUpperCase H s) \<Longrightarrow> slash \<in> set s"
    and lowerNil: "toLowerCase H [] = []"
    and upperNil: "toUpperCase H [] = []"
  shows "count_list (convertTagContent H settings tagContent) slash = count_list tagContent slash
       \<and> length (split slash (convertTagContent H settings tagContent)) =
           length (split slash tagContent)
       \<and> (\<forall>i < length (split slash tagContent).
             split slash tagContent ! i = [] \<longrightarrow>
             split slash (convertTagContent H settings tagContent) ! i = [])"
proof -
  note parts = split_convertTagContent [where H = H and settings = settings and tagContent = tagContent, OF lowerSlash upperSlash]
  have len: "length (split slash (convertTagContent H settings tagContent)) =
             length (split slash tagContent)"
    by (simp add: parts)
  have count: "count_list (convertTagContent H settings tagContent) slash =
               count_list tagContent slash"
    using len by (simp add: length_split)
  have empties: "split slash (convertTagContent H settings tagContent) ! i = []"
    if "i < length (split slash tagContent)" "split slash tagContent ! i = []" for i
    using that by (simp add: parts nth_enumerate_eq transformSegment_Nil [where H = H, OF lowerNil upperNil])
  from count len empties show ?thesis by blast
qed

theorem convertTagContent_preserves_slashes_witness:
  "count_list (convertTagContent unicodeFragment
       \<lparr>caseStrategy = uppercase, separatorStrategy = kebab,
        removeSpecialChars = True, applyToNestedTags = True\<rparr> (ascii ''/My_Tag//a.b/'')) slash =
     count_list (ascii ''/My_Tag//a.b/'') slash
   \<and> length (split slash (convertTagContent unicodeFragment
       \<lparr>caseStrategy = uppercase, separatorStrategy = kebab,
        removeSpecialChars = True, applyToNestedTags = True\<rparr> (ascii ''/My_Tag//a.b/''))) =
     length (split slash (ascii ''/My_Tag//a.b/''))
   \<and> split slash (ascii ''/My_Tag//a.b/'') ! 2 = []
   \<and> split slash (convertTagContent unicodeFragment
       \<lparr>caseStrategy = uppercase, separatorStrategy = kebab,
        removeSpecialChars = True, applyToNestedTags = True\<rparr> (ascii ''/My_Tag//a.b/'')) ! 2 = []
   \<and> convertTagContent unicodeFragment
       \<lparr>caseStrategy = uppercase, separatorStrategy = kebab,
        removeSpecialChars = True, applyToNestedTags = True\<rparr> (ascii ''/My_Tag//a.b/'') =
     ascii ''/MY-TAG//AB/''"
proof -
  let ?cfg = "\<lparr>caseStrategy = uppercase, separatorStrategy = kebab,
        removeSpecialChars = True, applyToNestedTags = True\<rparr>"
  let ?s = "ascii ''/My_Tag//a.b/''"
  have inst: "count_list (convertTagContent unicodeFragment ?cfg ?s) slash = count_list ?s slash
       \<and> length (split slash (convertTagContent unicodeFragment ?cfg ?s)) = length (split slash ?s)
       \<and> (\<forall>i < length (split slash ?s).
             split slash ?s ! i = [] \<longrightarrow> split slash (convertTagContent unicodeFragment ?cfg ?s) ! i = [])"
  proof (rule convertTagContent_preserves_slashes)
    show "slash \<in> set s" if "slash \<in> set (toLowerCase unicodeFragment s)" for s
      using that by (rule fragment_lower_slash)
    show "slash \<in> set s" if "slash \<in> set (toUpperCase unicodeFragment s)" for s
      using that by (rule fragment_upper_slash)
    show "toLowerCase unicodeFragment [] = []" by (simp add: unicodeFragment_def)
    show "toUpperCase unicodeFragment [] = []" by (simp add: unicodeFragment_def)
  qed
  have third: "2 < length (split slash ?s)" "split slash ?s ! 2 = []"
    by code_simp+
  have result: "convertTagContent unicodeFragment ?cfg ?s = ascii ''/MY-TAG//AB/''"
    by code_simp
  from inst have c1: "count_list (convertTagContent unicodeFragment ?cfg ?s) slash = count_list ?s slash"
    by (rule conjunct1)
  from inst have c23: "length (split slash (convertTagContent unicodeFragment ?cfg ?s)) = length (split slash ?s)
       \<and> (\<forall>i < length (split slash ?s).
             split slash ?s ! i = [] \<longrightarrow> split slash (convertTagContent unicodeFragment ?cfg ?s) ! i = [])"
    by (rule conjunct2)
  from c23 have c2: "length (split slash (convertTagContent unicodeFragment ?cfg ?s)) = length (split slash ?s)"
    by (rule conjunct1)
  from c23 have "\<forall>i < length (split slash ?s).
      split slash ?s ! i = [] \<longrightarrow> split slash (convertTagContent unicodeFragment ?cfg ?s) ! i = []"
    by (rule conjunct2)
  then have "2 < length (split slash ?s) \<longrightarrow>
      split slash ?s ! 2 = [] \<longrightarrow> split slash (convertTagContent unicodeFragment ?cfg ?s) ! 2 = []"
    by (rule spec)
  from this third(1) have "split slash ?s ! 2 = [] \<longrightarrow>
      split slash (convertTagContent unicodeFragment ?cfg ?s) ! 2 = []"
    by (rule mp)
  from this third(2) have c3: "split slash (convertTagContent unicodeFragment ?cfg ?s) ! 2 = []"
    by (rule mp)
  from c1 c2 third(2) c3 result show ?thesis by (intro conjI)
qed

text \<open>
  C5. With apply-to-nested off and at least two segments, every segment after the first is
  the same in the output as in the input, and the first segment is the transformed first
  segment of the input. The host's case conversions are taken to introduce no slash.
\<close>

theorem convertTagContent_nested_untouched:
  assumes lowerSlash: "\<And>s. slash \<in> set (toLowerCase H s) \<Longrightarrow> slash \<in> set s"
    and upperSlash: "\<And>s. slash \<in> set (toUpperCase H s) \<Longrightarrow> slash \<in> set s"
    and nested: "\<not> applyToNestedTags settings"
    and two: "2 \<le> length (split slash tagContent)"
  shows "length (split slash (convertTagContent H settings tagContent)) =
           length (split slash tagContent)
       \<and> split slash (convertTagContent H settings tagContent) ! 0 =
           transformSegment H settings (split slash tagContent ! 0)
       \<and> (\<forall>i. 0 < i \<and> i < length (split slash tagContent) \<longrightarrow>
             split slash (convertTagContent H settings tagContent) ! i =
             split slash tagContent ! i)"
proof -
  note parts = split_convertTagContent [where H = H and settings = settings and tagContent = tagContent, OF lowerSlash upperSlash]
  have len: "length (split slash (convertTagContent H settings tagContent)) =
             length (split slash tagContent)"
    by (simp add: parts)
  have first: "split slash (convertTagContent H settings tagContent) ! 0 =
               transformSegment H settings (split slash tagContent ! 0)"
  proof -
    have "0 < length (split slash tagContent)" by (simp add: split_not_Nil)
    then show ?thesis by (simp add: parts nth_enumerate_eq)
  qed
  have rest: "split slash (convertTagContent H settings tagContent) ! i =
              split slash tagContent ! i"
    if "0 < i" "i < length (split slash tagContent)" for i
    using that nested by (simp add: parts nth_enumerate_eq)
  from len first rest show ?thesis by blast
qed

theorem convertTagContent_nested_untouched_witness:
  "length (split slash (convertTagContent unicodeFragment
       \<lparr>caseStrategy = lowercase, separatorStrategy = snake,
        removeSpecialChars = False, applyToNestedTags = False\<rparr> (ascii ''My-Tag/Sub-Tag/Leaf''))) =
     length (split slash (ascii ''My-Tag/Sub-Tag/Leaf''))
   \<and> split slash (convertTagContent unicodeFragment
       \<lparr>caseStrategy = lowercase, separatorStrategy = snake,
        removeSpecialChars = False, applyToNestedTags = False\<rparr> (ascii ''My-Tag/Sub-Tag/Leaf'')) ! 0 =
     transformSegment unicodeFragment
       \<lparr>caseStrategy = lowercase, separatorStrategy = snake,
        removeSpecialChars = False, applyToNestedTags = False\<rparr> (split slash (ascii ''My-Tag/Sub-Tag/Leaf'') ! 0)
   \<and> split slash (convertTagContent unicodeFragment
       \<lparr>caseStrategy = lowercase, separatorStrategy = snake,
        removeSpecialChars = False, applyToNestedTags = False\<rparr> (ascii ''My-Tag/Sub-Tag/Leaf'')) ! 1 =
     split slash (ascii ''My-Tag/Sub-Tag/Leaf'') ! 1
   \<and> convertTagContent unicodeFragment
       \<lparr>caseStrategy = lowercase, separatorStrategy = snake,
        removeSpecialChars = False, applyToNestedTags = False\<rparr> (ascii ''My-Tag/Sub-Tag/Leaf'') =
     ascii ''my_tag/Sub-Tag/Leaf''"
proof -
  let ?cfg = "\<lparr>caseStrategy = lowercase, separatorStrategy = snake,
        removeSpecialChars = False, applyToNestedTags = False\<rparr>"
  let ?s = "ascii ''My-Tag/Sub-Tag/Leaf''"
  have inst: "length (split slash (convertTagContent unicodeFragment ?cfg ?s)) = length (split slash ?s)
       \<and> split slash (convertTagContent unicodeFragment ?cfg ?s) ! 0 =
           transformSegment unicodeFragment ?cfg (split slash ?s ! 0)
       \<and> (\<forall>i. 0 < i \<and> i < length (split slash ?s) \<longrightarrow>
             split slash (convertTagContent unicodeFragment ?cfg ?s) ! i = split slash ?s ! i)"
  proof (rule convertTagContent_nested_untouched)
    show "slash \<in> set s" if "slash \<in> set (toLowerCase unicodeFragment s)" for s
      using that by (rule fragment_lower_slash)
    show "slash \<in> set s" if "slash \<in> set (toUpperCase unicodeFragment s)" for s
      using that by (rule fragment_upper_slash)
    show "\<not> applyToNestedTags ?cfg" by simp
    show "2 \<le> length (split slash ?s)" by code_simp
  qed
  have second: "0 < (1 :: nat) \<and> 1 < length (split slash ?s)"
    by code_simp
  have result: "convertTagContent unicodeFragment ?cfg ?s = ascii ''my_tag/Sub-Tag/Leaf''"
    by code_simp
  from inst have c1: "length (split slash (convertTagContent unicodeFragment ?cfg ?s)) =
                      length (split slash ?s)"
    by (rule conjunct1)
  from inst have c23: "split slash (convertTagContent unicodeFragment ?cfg ?s) ! 0 =
           transformSegment unicodeFragment ?cfg (split slash ?s ! 0)
       \<and> (\<forall>i. 0 < i \<and> i < length (split slash ?s) \<longrightarrow>
             split slash (convertTagContent unicodeFragment ?cfg ?s) ! i = split slash ?s ! i)"
    by (rule conjunct2)
  from c23 have c2: "split slash (convertTagContent unicodeFragment ?cfg ?s) ! 0 =
           transformSegment unicodeFragment ?cfg (split slash ?s ! 0)"
    by (rule conjunct1)
  from c23 have "\<forall>i. 0 < i \<and> i < length (split slash ?s) \<longrightarrow>
             split slash (convertTagContent unicodeFragment ?cfg ?s) ! i = split slash ?s ! i"
    by (rule conjunct2)
  then have "0 < (1 :: nat) \<and> 1 < length (split slash ?s) \<longrightarrow>
             split slash (convertTagContent unicodeFragment ?cfg ?s) ! 1 = split slash ?s ! 1"
    by (rule spec)
  from this second have c3: "split slash (convertTagContent unicodeFragment ?cfg ?s) ! 1 =
                             split slash ?s ! 1"
    by (rule mp)
  from c1 c2 c3 result show ?thesis by (intro conjI)
qed

section \<open>Properties of the rename\<close>

lemma syntaxCharacter_escaped: "syntaxCharacter c \<longleftrightarrow> c \<in> set escapedChars"
  by (auto simp: syntaxCharacter_def escapedChars_def)

lemma patternLiteral_escapeRegExp: "patternLiteral (escapeRegExp s) = Some s"
proof (induction s)
  case Nil
  show ?case by (simp add: escapeRegExp_def)
next
  case (Cons c s)
  have step: "escapeRegExp (c # s) =
              (if c \<in> set escapedChars then [backslash, c] else [c]) @ escapeRegExp s"
    by (simp add: escapeRegExp_def)
  show ?case
  proof (cases "c \<in> set escapedChars")
    case True
    then show ?thesis using Cons by (simp add: step syntaxCharacter_escaped)
  next
    case False
    then have "c \<noteq> backslash" by (auto simp: escapedChars_def)
    with False Cons have "patternLiteral (c # escapeRegExp s) = Some (c # s)"
      by (cases "escapeRegExp s") (auto simp: syntaxCharacter_escaped)
    with False show ?thesis by (simp add: step)
  qed
qed

lemma renameBody_literal:
  "renameBody H search replace data =
   replaceG (tagRegex H search) (\<lambda>(prefix, hash, capturedTag). prefix @ hash @ replace) True data"
  by (simp add: renameBody_def patternLiteral_escapeRegExp)

lemma tagRegex_no_space:
  "\<forall>c \<in> set body. \<not> isWhiteSpace c \<Longrightarrow> tagRegex H lit False body = None"
  by (cases body) (auto simp: tagRegex_def)

lemma replaceG_no_space:
  "\<forall>c \<in> set body. \<not> isWhiteSpace c \<Longrightarrow> replaceG (tagRegex H lit) cb False body = (body, False)"
proof (induction body)
  case Nil
  then show ?case by (simp add: tagRegex_def)
next
  case (Cons c body)
  then have "tagRegex H lit False (c # body) = None" by (intro tagRegex_no_space)
  with Cons show ?case by simp
qed



lemma joinWith_Cons: "ps \<noteq> [] \<Longrightarrow> joinWith sep (p # ps) = p @ sep @ joinWith sep ps"
  by (cases ps) auto

lemma joinWith_push: "ps \<noteq> [] \<Longrightarrow> joinWith sep ((c # hd ps) # tl ps) = c # joinWith sep ps"
  by (cases ps; cases "tl ps") auto

lemma tagRegex_length: "tagRegex H lit atStart body = Some (g, n) \<Longrightarrow> 0 < n"
  by (auto simp: tagRegex_def split: if_splits list.splits)

lemma replaceG_template:
  "\<exists>chunks. chunks \<noteq> [] \<and>
     (\<forall>replace. fst (replaceG (tagRegex H lit)
                       (\<lambda>(prefix, hash, capturedTag). prefix @ hash @ replace) atStart body) =
                joinWith replace chunks)"
proof (induction body arbitrary: atStart rule: length_induct)
  case (1 body)
  show ?case
  proof (cases body)
    case Nil
    have "tagRegex H lit atStart [] = None" by (simp add: tagRegex_def matchHashTag_def)
    with Nil have "\<forall>replace. fst (replaceG (tagRegex H lit)
                       (\<lambda>(prefix, hash, capturedTag). prefix @ hash @ replace) atStart body) =
                joinWith replace [[]]"
      by simp
    then show ?thesis by blast
  next
    case (Cons c cs)
    show ?thesis
    proof (cases "tagRegex H lit atStart (c # cs)")
      case None
      have "length cs < length body" using Cons by simp
      from 1 [rule_format, OF this, of False] obtain chunks where chunks: "chunks \<noteq> []"
        "\<And>replace. fst (replaceG (tagRegex H lit)
                       (\<lambda>(prefix, hash, capturedTag). prefix @ hash @ replace) False cs) =
                joinWith replace chunks"
        by blast
      have "\<forall>replace. fst (replaceG (tagRegex H lit)
                       (\<lambda>(prefix, hash, capturedTag). prefix @ hash @ replace) atStart body) =
                joinWith replace ((c # hd chunks) # tl chunks)"
        using None Cons chunks by (simp add: joinWith_push split_beta)
      then show ?thesis by blast
    next
      case (Some m)
      obtain p h t n where m: "m = ((p, h, t), n)" by (cases m) auto
      with Some have n: "0 < n" using tagRegex_length by blast
      then have "length (drop n (c # cs)) < length body" using Cons by simp
      from 1 [rule_format, OF this, of False] obtain chunks where chunks: "chunks \<noteq> []"
        "\<And>replace. fst (replaceG (tagRegex H lit)
                       (\<lambda>(prefix, hash, capturedTag). prefix @ hash @ replace) False
                       (drop n (c # cs))) =
                joinWith replace chunks"
        by blast
      have "\<forall>replace. fst (replaceG (tagRegex H lit)
                       (\<lambda>(prefix, hash, capturedTag). prefix @ hash @ replace) atStart body) =
                joinWith replace ((p @ h) # chunks)"
        using Some m n Cons chunks by (simp add: joinWith_Cons)
      then show ?thesis by blast
    qed
  qed
qed



lemma renameBody_match:
  assumes "matchHashTag H search (hash # cand)"
    and "\<forall>c \<in> set (drop (length search) cand). \<not> isWhiteSpace c"
  shows "renameBody H search replace (hash # cand) =
         (hash # replace @ drop (length search) cand, True)"
proof -
  have rx: "tagRegex H search True (hash # cand) = Some (([], [hash], search), 1 + length search)"
    using assms(1) by (simp add: tagRegex_def)
  have "replaceG (tagRegex H search) cb False (drop (length search) cand) =
        (drop (length search) cand, False)" for cb
    using assms(2) by (rule replaceG_no_space)
  with rx show ?thesis by (simp add: renameBody_literal)
qed



lemma renameBodyFrom_literal:
  "renameBodyFrom H search replace atStart data =
   replaceG (tagRegex H search) (\<lambda>(prefix, hash, capturedTag). prefix @ hash @ replace)
     atStart data"
  by (simp add: renameBodyFrom_def patternLiteral_escapeRegExp)


lemma renameBodyFrom_Nil: "renameBodyFrom H search replace False [] = ([], False)"
  by (simp add: renameBodyFrom_literal tagRegex_def)














text \<open>
  C10. Whatever characters the search term and the replacement hold, the text step of the
  rename writes the replacement as it is. The rewritten text is made of pieces that do
  not depend on the replacement, with the replacement itself between them; and a marker
  followed by the search term and by a tail that ends the tag (and holds no white space)
  becomes the marker, the replacement and the same tail.
\<close>

theorem rename_replacement_literal:
  "(\<exists>chunks. \<forall>replace. fst (renameBody H search replace body) = joinWith replace chunks)
   \<and> (tagBoundary H rest \<and> (\<forall>c \<in> set rest. \<not> isWhiteSpace c) \<longrightarrow>
        (\<forall>replace. renameBody H search replace (hash # search @ rest) =
                     (hash # replace @ rest, True)))"
proof
  show "\<exists>chunks. \<forall>replace. fst (renameBody H search replace body) = joinWith replace chunks"
    using replaceG_template [of H search True body] by (auto simp: renameBody_literal)
  show "tagBoundary H rest \<and> (\<forall>c \<in> set rest. \<not> isWhiteSpace c) \<longrightarrow>
        (\<forall>replace. renameBody H search replace (hash # search @ rest) =
                     (hash # replace @ rest, True))"
  proof (intro impI allI)
    fix replace
    assume tail: "tagBoundary H rest \<and> (\<forall>c \<in> set rest. \<not> isWhiteSpace c)"
    then have "matchHashTag H search (hash # search @ rest)"
      by (simp add: matchHashTag_def)
    then show "renameBody H search replace (hash # search @ rest) = (hash # replace @ rest, True)"
      using tail renameBody_match [of H search "search @ rest" replace] by simp
  qed
qed


theorem rename_replacement_literal_witness:
  "renameBody unicodeFragment (ascii ''c++'') [36, 38, 92, 42] (hash # ascii ''c++'' @ ascii ''/x'') =
     (hash # [36, 38, 92, 42] @ ascii ''/x'', True)"
proof -
  have tail: "tagBoundary unicodeFragment (ascii ''/x'')
              \<and> (\<forall>c \<in> set (ascii ''/x''). \<not> isWhiteSpace c)"
    by code_simp
  have "tagBoundary unicodeFragment (ascii ''/x'')
          \<and> (\<forall>c \<in> set (ascii ''/x''). \<not> isWhiteSpace c) \<longrightarrow>
        (\<forall>replace. renameBody unicodeFragment (ascii ''c++'') replace (hash # ascii ''c++'' @ ascii ''/x'') =
                     (hash # replace @ ascii ''/x'', True))"
    using rename_replacement_literal [of unicodeFragment "ascii ''c++''" "[]" "ascii ''/x''"]
    by (rule conjunct2)
  from this tail have "\<forall>replace. renameBody unicodeFragment (ascii ''c++'') replace (hash # ascii ''c++'' @ ascii ''/x'') =
                     (hash # replace @ ascii ''/x'', True)"
    by (rule mp)
  then show ?thesis by (rule spec)
qed

text \<open>
  C8. When the old or the new tag is empty once its leading marker is removed,
  \<^verbatim>\<open>renameTag\<close> leaves every document as it is, emits the one notice asking for both tags,
  and raises nothing.
\<close>

theorem renameTag_rejects_empty:
  assumes "(if startsWith oldTag [hash] then substring oldTag 1 else oldTag) = []
         \<or> (if startsWith newTag [hash] then substring newTag 1 else newTag) = []"
  shows "renameTag H oldTag newTag files = (files, [ProvideBothTags], None)"
  using assms by (auto simp: renameTag_def Let_def)

theorem renameTag_rejects_empty_witness:
  "renameTag unicodeFragment [hash] (ascii ''new'')
     [\<lparr>path = ascii ''a.md'',
       frontmatter = \<lparr>tags = Arr [YString (ascii ''#old'')], tag = Undefined\<rparr>,
       content = ascii ''#old''\<rparr>] =
   ([\<lparr>path = ascii ''a.md'',
      frontmatter = \<lparr>tags = Arr [YString (ascii ''#old'')], tag = Undefined\<rparr>,
      content = ascii ''#old''\<rparr>], [ProvideBothTags], None)"
proof (rule renameTag_rejects_empty)
  show "(if startsWith [hash] [hash] then substring [hash] 1 else [hash]) = []
      \<or> (if startsWith (ascii ''new'') [hash] then substring (ascii ''new'') 1 else ascii ''new'') = []"
    by code_simp
qed

section \<open>Properties of the bulk conversion\<close>

lemma convertFiles_result:
  "convertFiles H settings files processedCount console =
     (map (\<lambda>file. case processFile H settings file of Inr file' \<Rightarrow> file' | Inl e \<Rightarrow> file) files,
      processedCount + length (filter (\<lambda>file. \<not> isl (processFile H settings file)) files),
      console @ map (\<lambda>file. FailedToProcess (path file) (projl (processFile H settings file)))
                    (filter (\<lambda>file. isl (processFile H settings file)) files))"
proof (induction files arbitrary: processedCount console)
  case Nil
  show ?case by simp
next
  case (Cons f files)
  show ?case
  proof (cases "processFile H settings f")
    case (Inl e)
    then show ?thesis by (simp add: Cons)
  next
    case (Inr file')
    then show ?thesis by (simp add: Cons)
  qed
qed

text \<open>
  C9. \<^verbatim>\<open>runConversion\<close> goes through every document: a document whose processing raises
  stays as it was and is logged, every other document is replaced by its processed
  version, and the count in the final notice is the number of documents whose processing
  did not raise.
\<close>

theorem runConversion_counts_successes:
  "runConversion H settings files =
     (map (\<lambda>file. case processFile H settings file of Inr file' \<Rightarrow> file' | Inl e \<Rightarrow> file) files,
      [StartingConversion (length files),
       CompletedProcessed (length (filter (\<lambda>file. \<not> isl (processFile H settings file)) files))],
      map (\<lambda>file. FailedToProcess (path file) (projl (processFile H settings file)))
          (filter (\<lambda>file. isl (processFile H settings file)) files))"
  by (simp add: runConversion_def convertFiles_result)

theorem runConversion_counts_successes_witness:
  "runConversion unicodeFragment DEFAULT_SETTINGS
     [\<lparr>path = ascii ''a.md'', frontmatter = \<lparr>tags = Arr [YString (ascii ''#One''), YOther], tag = Undefined\<rparr>,
       content = ascii ''#Two''\<rparr>,
      \<lparr>path = ascii ''b.md'', frontmatter = \<lparr>tags = Str (ascii ''Three/Four''), tag = Undefined\<rparr>,
       content = ascii ''see #Five-Six here''\<rparr>] =
   ([\<lparr>path = ascii ''a.md'', frontmatter = \<lparr>tags = Arr [YString (ascii ''#One''), YOther], tag = Undefined\<rparr>,
      content = ascii ''#Two''\<rparr>,
     \<lparr>path = ascii ''b.md'', frontmatter = \<lparr>tags = Str (ascii ''three/four''), tag = Undefined\<rparr>,
      content = ascii ''see #five-six here''\<rparr>],
    [StartingConversion 2, CompletedProcessed 1],
    [FailedToProcess (ascii ''a.md'') TypeError])"
  unfolding runConversion_counts_successes by code_simp

section \<open>Properties of the statistics and of the tag list\<close>

lemma fold_count:
  "fold (\<lambda>t n. if P t then n + 1 else n) xs (k :: nat) = k + length (filter P xs)"
  by (induction xs arbitrary: k) auto

text \<open>
  C6. \<^verbatim>\<open>updateStats\<close> returns the state of the plugin as it received it; the total is the
  number of distinct known tags, and the count of tags to update is the number of distinct
  known tags whose value without the marker differs from its converted value.
\<close>

theorem updateStats_counts:
  assumes cache: "tagCache plugin = Some obj"
    and once: "distinct (map fst obj)"
    and marked: "\<forall>t \<in> fst ` set obj. startsWith t [hash]"
  shows "updateStats H plugin =
           (plugin, card (fst ` set obj),
            card {t \<in> fst ` set obj.
                    \<exists>raw. t = hash # raw \<and> convertTagContent H (pluginSettings plugin) raw \<noteq> raw})"
proof -
  define P where
    "P t \<longleftrightarrow> substring t 1 \<noteq> convertTagContent H (pluginSettings plugin) (substring t 1)" for t
  have keys: "set (objectKeys obj) = fst ` set obj" "distinct (objectKeys obj)"
    using once by (simp_all add: objectKeys_def)
  have total: "length (objectKeys obj) = card (fst ` set obj)"
    using keys distinct_card [of "objectKeys obj"] by simp
  have "length (filter P (objectKeys obj)) = card {t \<in> fst ` set obj. P t}"
    using keys distinct_length_filter [of "objectKeys obj" P] by (simp add: Int_def conj_commute)
  moreover have "{t \<in> fst ` set obj. P t} =
                 {t \<in> fst ` set obj.
                    \<exists>raw. t = hash # raw \<and> convertTagContent H (pluginSettings plugin) raw \<noteq> raw}"
  proof (rule Collect_cong)
    fix t
    show "(t \<in> fst ` set obj \<and> P t) \<longleftrightarrow>
          (t \<in> fst ` set obj \<and>
           (\<exists>raw. t = hash # raw \<and> convertTagContent H (pluginSettings plugin) raw \<noteq> raw))"
    proof (cases "t \<in> fst ` set obj")
      case True
      with marked obtain raw where "t = hash # raw"
        by (auto simp: startsWith_def prefix_def)
      with True show ?thesis by (auto simp: P_def substring_def)
    next
      case False
      then show ?thesis by simp
    qed
  qed
  ultimately have affected:
    "fold (\<lambda>t n. if P t then n + 1 else n) (objectKeys obj) 0 =
     card {t \<in> fst ` set obj.
             \<exists>raw. t = hash # raw \<and> convertTagContent H (pluginSettings plugin) raw \<noteq> raw}"
    by (simp add: fold_count)
  show ?thesis
    using affected total cache by (simp add: updateStats_def P_def Let_def)
qed

theorem updateStats_counts_witness:
  "updateStats unicodeFragment
     \<lparr>pluginSettings = DEFAULT_SETTINGS, markdownFiles = [],
      tagCache = Some [(ascii ''#A'', 1), (ascii ''#a'', 2), (ascii ''#B/c'', 1)]\<rparr> =
   (\<lparr>pluginSettings = DEFAULT_SETTINGS, markdownFiles = [],
     tagCache = Some [(ascii ''#A'', 1), (ascii ''#a'', 2), (ascii ''#B/c'', 1)]\<rparr>,
    card (fst ` set [(ascii ''#A'', 1 :: nat), (ascii ''#a'', 2), (ascii ''#B/c'', 1)]),
    card {t \<in> fst ` set [(ascii ''#A'', 1 :: nat), (ascii ''#a'', 2), (ascii ''#B/c'', 1)].
            \<exists>raw. t = hash # raw \<and> convertTagContent unicodeFragment DEFAULT_SETTINGS raw \<noteq> raw})
   \<and> updateStats unicodeFragment
     \<lparr>pluginSettings = DEFAULT_SETTINGS, markdownFiles = [],
      tagCache = Some [(ascii ''#A'', 1), (ascii ''#a'', 2), (ascii ''#B/c'', 1)]\<rparr> =
   (\<lparr>pluginSettings = DEFAULT_SETTINGS, markdownFiles = [],
     tagCache = Some [(ascii ''#A'', 1), (ascii ''#a'', 2), (ascii ''#B/c'', 1)]\<rparr>, 3, 2)"
proof
  have marked: "\<forall>t \<in> fst ` set [(ascii ''#A'', 1 :: nat), (ascii ''#a'', 2), (ascii ''#B/c'', 1)].
                  startsWith t [hash]"
    by code_simp
  have once: "distinct (map fst [(ascii ''#A'', 1 :: nat), (ascii ''#a'', 2), (ascii ''#B/c'', 1)])"
    by code_simp
  show "updateStats unicodeFragment
     \<lparr>pluginSettings = DEFAULT_SETTINGS, markdownFiles = [],
      tagCache = Some [(ascii ''#A'', 1), (ascii ''#a'', 2), (ascii ''#B/c'', 1)]\<rparr> =
   (\<lparr>pluginSettings = DEFAULT_SETTINGS, markdownFiles = [],
     tagCache = Some [(ascii ''#A'', 1), (ascii ''#a'', 2), (ascii ''#B/c'', 1)]\<rparr>,
    card (fst ` set [(ascii ''#A'', 1 :: nat), (ascii ''#a'', 2), (ascii ''#B/c'', 1)]),
    card {t \<in> fst ` set [(ascii ''#A'', 1 :: nat), (ascii ''#a'', 2), (ascii ''#B/c'', 1)].
            \<exists>raw. t = hash # raw \<and> convertTagContent unicodeFragment DEFAULT_SETTINGS raw \<noteq> raw})"
    using updateStats_counts [of "\<lparr>pluginSettings = DEFAULT_SETTINGS, markdownFiles = [],
      tagCache = Some [(ascii ''#A'', 1), (ascii ''#a'', 2), (ascii ''#B/c'', 1)]\<rparr>"
      "[(ascii ''#A'', 1), (ascii ''#a'', 2), (ascii ''#B/c'', 1)]" unicodeFragment] marked once
    by simp
  show "updateStats unicodeFragment
     \<lparr>pluginSettings = DEFAULT_SETTINGS, markdownFiles = [],
      tagCache = Some [(ascii ''#A'', 1), (ascii ''#a'', 2), (ascii ''#B/c'', 1)]\<rparr> =
   (\<lparr>pluginSettings = DEFAULT_SETTINGS, markdownFiles = [],
     tagCache = Some [(ascii ''#A'', 1), (ascii ''#a'', 2), (ascii ''#B/c'', 1)]\<rparr>, 3, 2)"
    by code_simp
qed

lemma set_insertBy: "set (insertBy cmp x xs) = insert x (set xs)"
  by (induction xs) auto

lemma set_sortBy: "set (sortBy cmp xs) = set xs"
  by (induction xs) (auto simp: sortBy_def set_insertBy)

lemma distinct_insertBy: "distinct (insertBy cmp x xs) \<longleftrightarrow> x \<notin> set xs \<and> distinct xs"
  by (induction xs) (auto simp: set_insertBy)

lemma distinct_sortBy: "distinct (sortBy cmp xs) \<longleftrightarrow> distinct xs"
  by (induction xs) (auto simp: sortBy_def distinct_insertBy set_sortBy [unfolded sortBy_def])

lemma length_insertBy: "length (insertBy cmp x xs) = Suc (length xs)"
  by (induction xs) auto

lemma length_sortBy: "length (sortBy cmp xs) = length xs"
  by (induction xs) (auto simp: sortBy_def length_insertBy)

lemma sorted_insertBy:
  assumes total: "\<And>a b. cmp a b \<le> 0 \<or> cmp b a \<le> 0"
    and trans: "\<And>a b c. cmp a b \<le> 0 \<Longrightarrow> cmp b c \<le> 0 \<Longrightarrow> cmp a c \<le> 0"
  shows "sorted_wrt (\<lambda>a b. cmp a b \<le> 0) xs \<Longrightarrow>
         sorted_wrt (\<lambda>a b. cmp a b \<le> (0 :: int)) (insertBy cmp x xs)"
proof (induction xs)
  case Nil
  show ?case by simp
next
  case (Cons y ys)
  show ?case
  proof (cases "cmp x y \<le> 0")
    case True
    then have "\<forall>z \<in> set ys. cmp x z \<le> 0" using Cons.prems trans by auto
    with True Cons.prems show ?thesis by simp
  next
    case False
    then have "cmp y x \<le> 0" using total [of x y] by simp
    with False Cons show ?thesis by (simp add: set_insertBy)
  qed
qed

lemma sorted_sortBy:
  assumes total: "\<And>a b. cmp a b \<le> 0 \<or> cmp b a \<le> 0"
    and trans: "\<And>a b c. cmp a b \<le> 0 \<Longrightarrow> cmp b c \<le> 0 \<Longrightarrow> cmp a c \<le> 0"
  shows "sorted_wrt (\<lambda>a b. cmp a b \<le> (0 :: int)) (sortBy cmp xs)"
proof (induction xs)
  case Nil
  show ?case by (simp add: sortBy_def)
next
  case (Cons x xs)
  then show ?case
    using sorted_insertBy [where cmp = cmp and xs = "sortBy cmp xs" and x = x, OF total trans]
    by (simp add: sortBy_def)
qed

lemma path_modifyFile: "path ` set (modifyFile name text fs) = path ` set fs"
  by (induction fs) auto

lemma modifyFile_written:
  "name \<in> path ` set fs \<Longrightarrow>
   \<exists>f \<in> set (modifyFile name text fs). path f = name \<and> content f = text"
  by (induction fs) auto

lemma split_snoc_sep: "split sep (s @ [sep]) = split sep s @ [[]]"
  by (induction s) (auto split: list.splits simp: split_not_Nil)

lemma fragmentCompare_le:
  "fragmentCompare a b \<le> 0 \<longleftrightarrow>
   map collationKey a < map collationKey b
   \<or> map collationKey a = map collationKey b \<and> map caseKey a \<le> map caseKey b"
  by (auto simp: fragmentCompare_def)

lemma fragmentCompare_total: "fragmentCompare a b \<le> 0 \<or> fragmentCompare b a \<le> 0"
  unfolding fragmentCompare_le by auto

lemma fragmentCompare_trans:
  "fragmentCompare a b \<le> 0 \<Longrightarrow> fragmentCompare b c \<le> 0 \<Longrightarrow> fragmentCompare a c \<le> 0"
  unfolding fragmentCompare_le by auto

lemma newline_free_title: "newline \<notin> set (ascii ''# All Tags'')"
  by code_simp

lemma split_fileContent:
  assumes "ts \<noteq> []" and "\<forall>t \<in> set ts. newline \<notin> set t"
  shows "split newline (fileContent ts) =
         ascii ''# All Tags'' # [] # map (\<lambda>t. ascii ''- '' @ t) ts @ [[]]"
proof -
  let ?lines = "map (\<lambda>t. ascii ''- '' @ t) ts"
  have "newline \<notin> set (ascii ''- '')" by code_simp
  with assms have "?lines \<noteq> []" "\<forall>p \<in> set ?lines. newline \<notin> set p" by auto
  then have "split newline (join newline ?lines) = ?lines" by (rule split_join)
  then have "split newline (join newline ?lines @ [newline]) = ?lines @ [[]]"
    by (simp add: split_snoc_sep)
  then have "split newline (newline # join newline ?lines @ [newline]) = [] # ?lines @ [[]]"
    by simp
  then show ?thesis
    using split_append_sep [OF newline_free_title, of "newline # join newline ?lines @ [newline]"]
    by (simp add: fileContent_def)
qed

text \<open>
  C7 (as amended). For a non-empty collection of known tags, \<^verbatim>\<open>generateTagList\<close> writes the
  document \<^verbatim>\<open>All Tags.md\<close>: after the title and an empty line it holds one line per known
  tag, each tag once, in the order of the host's \<^verbatim>\<open>localeCompare\<close> (taken to be a total
  preorder). The tag names are distinct and hold no line break.
\<close>

theorem generateTagList_listing:
  assumes total: "\<And>a b. localeCompare H a b \<le> 0 \<or> localeCompare H b a \<le> 0"
    and trans: "\<And>a b c. localeCompare H a b \<le> 0 \<Longrightarrow> localeCompare H b c \<le> 0 \<Longrightarrow>
                  localeCompare H a c \<le> 0"
    and nonempty: "obj \<noteq> []"
    and once: "distinct (map fst obj)"
    and oneline: "\<forall>t \<in> fst ` set obj. newline \<notin> set t"
  shows "\<exists>sortedTags.
           set sortedTags = fst ` set obj \<and> distinct sortedTags
         \<and> sorted_wrt (\<lambda>a b. localeCompare H a b \<le> 0) sortedTags
         \<and> (\<exists>f \<in> set (fst (generateTagList H (Some obj) files)).
               path f = ascii ''All Tags.md'' \<and> content f = fileContent sortedTags)
         \<and> split newline (fileContent sortedTags) =
             ascii ''# All Tags'' # [] # map (\<lambda>t. ascii ''- '' @ t) sortedTags @ [[]]"
proof -
  define ts where "ts = sortBy (localeCompare H) (objectKeys obj)"
  have set_ts: "set ts = fst ` set obj"
    by (simp add: ts_def set_sortBy objectKeys_def)
  have distinct_ts: "distinct ts"
    using once by (simp add: ts_def distinct_sortBy objectKeys_def)
  have sorted_ts: "sorted_wrt (\<lambda>a b. localeCompare H a b \<le> 0) ts"
    unfolding ts_def by (rule sorted_sortBy [where cmp = "localeCompare H", OF total trans])
  from nonempty set_ts have ne: "ts \<noteq> []" by (cases obj) auto
  have written: "\<exists>f \<in> set (fst (generateTagList H (Some obj) files)).
                   path f = ascii ''All Tags.md'' \<and> content f = fileContent ts"
  proof (cases "ascii ''All Tags.md'' \<in> set (map path files)")
    case True
    then have "fst (generateTagList H (Some obj) files) =
               modifyFile (ascii ''All Tags.md'') (fileContent ts) files"
      using ne by (simp add: generateTagList_def ts_def Let_def)
    with True show ?thesis
      using modifyFile_written [of "ascii ''All Tags.md''" files "fileContent ts"] by simp
  next
    case False
    then have "fst (generateTagList H (Some obj) files) =
               createFile (ascii ''All Tags.md'') (fileContent ts) files"
      using ne by (simp add: generateTagList_def ts_def Let_def)
    then show ?thesis by (simp add: createFile_def)
  qed
  have "split newline (fileContent ts) =
        ascii ''# All Tags'' # [] # map (\<lambda>t. ascii ''- '' @ t) ts @ [[]]"
    using ne oneline set_ts by (intro split_fileContent) auto
  with set_ts distinct_ts sorted_ts written show ?thesis by blast
qed

theorem generateTagList_listing_witness:
  "\<exists>sortedTags.
     set sortedTags = fst ` set [(ascii ''#b'', 1 :: nat), (ascii ''#a'', 2)] \<and> distinct sortedTags
     \<and> sorted_wrt (\<lambda>a b. localeCompare unicodeFragment a b \<le> 0) sortedTags
     \<and> (\<exists>f \<in> set (fst (generateTagList unicodeFragment (Some [(ascii ''#b'', 1), (ascii ''#a'', 2)]) [])).
           path f = ascii ''All Tags.md'' \<and> content f = fileContent sortedTags)
     \<and> split newline (fileContent sortedTags) =
         ascii ''# All Tags'' # [] # map (\<lambda>t. ascii ''- '' @ t) sortedTags @ [[]]"
proof (rule generateTagList_listing)
  show "localeCompare unicodeFragment a b \<le> 0 \<or> localeCompare unicodeFragment b a \<le> 0" for a b
    using fragmentCompare_total [of a b] by (simp add: unicodeFragment_def)
  show "localeCompare unicodeFragment a c \<le> 0"
    if "localeCompare unicodeFragment a b \<le> 0" "localeCompare unicodeFragment b c \<le> 0" for a b c
    using that fragmentCompare_trans [of a b c] by (simp add: unicodeFragment_def)
  show "[(ascii ''#b'', 1 :: nat), (ascii ''#a'', 2)] \<noteq> []" by simp
  show "distinct (map fst [(ascii ''#b'', 1 :: nat), (ascii ''#a'', 2)])" by code_simp
  show "\<forall>t \<in> fst ` set [(ascii ''#b'', 1 :: nat), (ascii ''#a'', 2)]. newline \<notin> set t"
    by code_simp
qed

text \<open>
  C7 as stated fails: the order is the one of \<^verbatim>\<open>localeCompare\<close>, which puts \<^verbatim>\<open>#a\<close> before
  \<^verbatim>\<open>#B\<close>, whereas \<^verbatim>\<open>#B\<close> comes first by code point.
\<close>

theorem generateTagList_listing_counterexample:
  "generateTagList unicodeFragment (Some [(ascii ''#B'', 1), (ascii ''#a'', 1)]) [] =
     ([\<lparr>path = ascii ''All Tags.md'', frontmatter = \<lparr>tags = Undefined, tag = Undefined\<rparr>,
        content = ascii ''# All Tags'' @ [newline, newline] @ ascii ''- #a'' @ [newline]
                  @ ascii ''- #B'' @ [newline]\<rparr>],
      [CreatedTagList (ascii ''All Tags.md'') 2])
   \<and> ascii ''#B'' < ascii ''#a''"
  by code_simp

end
